theory Spec2Isabelle
  imports Complex_Main "HOL-Library.Sublist" "HOL-Library.AList"
begin

section \<open>Strings\<close>

text \<open>
  JavaScript strings are modelled as \<^typ>\<open>string\<close>, one character for one code unit;
  none of the operations below looks inside a code unit. The operations of the runtime
  that the renderer uses are: searching a literal (\<open>indexOf\<close>, also what a lazy
  \<open>[\s\S]*?\<close> followed by a literal does), \<open>split\<close> on a literal separator, \<open>join\<close>,
  and the decimal form of a counter inside a template literal.
\<close>

text \<open>
  \<open>find_first lit s\<close>: the text before the leftmost occurrence of \<open>lit\<close> in \<open>s\<close> and
  the text after it; \<open>None\<close> when \<open>lit\<close> does not occur.
\<close>

fun find_first :: "string \<Rightarrow> string \<Rightarrow> (string \<times> string) option" where
  "find_first lit [] = (if lit = [] then Some ([], []) else None)"
| "find_first lit (c # s) =
     (if prefix lit (c # s) then Some ([], drop (length lit) (c # s))
      else (case find_first lit s of
              None \<Rightarrow> None
            | Some (before, rest) \<Rightarrow> Some (c # before, rest)))"

lemma find_first_decomp:
  "find_first lit s = Some (before, rest) \<Longrightarrow> s = before @ lit @ rest"
proof (induction s arbitrary: before)
  case Nil
  then show ?case by (simp split: if_splits)
next
  case (Cons c s)
  show ?case
  proof (cases "prefix lit (c # s)")
    case True
    then obtain zs where zs: "c # s = lit @ zs"
      by (auto simp: prefix_def)
    from True Cons.prems have "before = []" "rest = drop (length lit) (c # s)"
      by simp_all
    with zs show ?thesis by simp
  next
    case False
    with Cons.prems obtain b where b: "find_first lit s = Some (b, rest)" "before = c # b"
      by (auto split: option.splits)
    from Cons.IH [OF b(1)] b(2) show ?thesis by simp
  qed
qed

lemma find_first_length:
  "find_first lit s = Some (before, rest) \<Longrightarrow> length rest \<le> length s"
  by (drule find_first_decomp) simp

text \<open>\<open>s.split(sep)\<close> for a literal separator; the empty separator splits into characters.\<close>

function split :: "string \<Rightarrow> string \<Rightarrow> string list" where
  "split sep s =
     (if sep = [] then map (\<lambda>c. [c]) s
      else (case find_first sep s of
              None \<Rightarrow> [s]
            | Some (before, rest) \<Rightarrow> before # split sep rest))"
  by pat_completeness auto
termination
proof (relation "measure (\<lambda>(sep, s). length s)")
  show "wf (measure (\<lambda>(sep, s). length s))" by simp
next
  fix sep s :: string and x2 before rest
  assume "sep \<noteq> []" "find_first sep s = Some x2" "(before, rest) = x2"
  then have "s = before @ sep @ rest"
    by (auto dest: find_first_decomp)
  with \<open>sep \<noteq> []\<close> have "length rest < length s"
    by (cases sep) auto
  then show "((sep, rest), (sep, s)) \<in> measure (\<lambda>(sep, s). length s)"
    by simp
qed

declare split.simps [simp del]

text \<open>\<open>parts.join(glue)\<close>.\<close>

fun join :: "string \<Rightarrow> string list \<Rightarrow> string" where
  "join glue [] = []"
| "join glue [p] = p"
| "join glue (p # q # ps) = p @ glue @ join glue (q # ps)"

text \<open>The decimal form of a non-negative integer, as a template literal prints it.\<close>

definition digit :: "nat \<Rightarrow> char" where
  "digit d = ''0123456789'' ! d"

fun decimal :: "nat \<Rightarrow> string" where
  "decimal n = (if n < 10 then [digit n] else decimal (n div 10) @ [digit (n mod 10)])"

declare decimal.simps [simp del]

section \<open>The mixed-text renderer\<close>

text \<open>
  \<open>latexMap\<close> is a JavaScript \<open>Map\<close>: it iterates in insertion order, and \<open>set\<close> on a key
  already present keeps the key's position. That is \<^const>\<open>AList.update\<close> on an
  association list. \<open>counter\<close> is the local counter of the render call.
\<close>

datatype mathType = Block | Inline

record extraction =
  counter :: nat
  latexMap :: "(string \<times> mathType \<times> string) list"

text \<open>The four regular expressions of the extraction passes, by their two delimiters.\<close>

datatype mathRegex = DollarDollar | BackslashBracket | BackslashParen | Dollar

fun openDelim :: "mathRegex \<Rightarrow> string" where
  "openDelim DollarDollar = ''$$''"
| "openDelim BackslashBracket = [CHR 0x5C, CHR ''['']"
| "openDelim BackslashParen = [CHR 0x5C, CHR ''('']"
| "openDelim Dollar = ''$''"

fun closeDelim :: "mathRegex \<Rightarrow> string" where
  "closeDelim DollarDollar = ''$$''"
| "closeDelim BackslashBracket = [CHR 0x5C, CHR '']'']"
| "closeDelim BackslashParen = [CHR 0x5C, CHR '')'']"
| "closeDelim Dollar = ''$''"

definition token :: "nat \<Rightarrow> string" where
  "token n = ''MATHITEM'' @ decimal n @ ''END''"

text \<open>The callback of \<open>replaceMath\<close>: take the next token, record the span, return the token.\<close>

definition store :: "mathType \<Rightarrow> string \<Rightarrow> extraction \<Rightarrow> string \<times> extraction" where
  "store ty math st =
     (token (counter st),
      \<lparr>counter = counter st + 1,
       latexMap = AList.update (token (counter st)) (ty, math) (latexMap st)\<rparr>)"

text \<open>
  \<open>str.replace(regex, callback)\<close> with a global regex \<open>open([\s\S]*?)close\<close>: the scan
  goes left to right; at a position where the opening delimiter stands and a closing one
  follows, the shortest such match is replaced and the scan resumes after it; elsewhere the
  character is copied.
\<close>

function replaceMath :: "mathRegex \<Rightarrow> mathType \<Rightarrow> string \<Rightarrow> extraction \<Rightarrow> string \<times> extraction" where
  "replaceMath rx ty s st =
     (if s = [] then ([], st)
      else if prefix (openDelim rx) s then
        (case find_first (closeDelim rx) (drop (length (openDelim rx)) s) of
           Some (math, rest) \<Rightarrow>
             (let (tok, st1) = store ty math st;
                  (out, st2) = replaceMath rx ty rest st1
              in (tok @ out, st2))
         | None \<Rightarrow>
             (let (out, st1) = replaceMath rx ty (tl s) st in (hd s # out, st1)))
      else (let (out, st1) = replaceMath rx ty (tl s) st in (hd s # out, st1)))"
  by pat_completeness auto
termination
proof (relation "measure (\<lambda>(rx, ty, s, st). length s)")
  show "wf (measure (\<lambda>(rx, ty, s, st). length s))" by simp
next
  fix rx :: mathRegex and ty :: mathType and s :: string and st :: extraction
    and x2 math rest x y st1
  assume "s \<noteq> []" "prefix (openDelim rx) s"
    and "find_first (closeDelim rx) (drop (length (openDelim rx)) s) = Some x2"
    and "(math, rest) = x2"
  then have "length rest \<le> length (drop (length (openDelim rx)) s)"
    by (auto dest: find_first_length)
  moreover have "1 \<le> length (openDelim rx)"
    by (cases rx) simp_all
  moreover have "1 \<le> length s"
    using \<open>s \<noteq> []\<close> by (cases s) simp_all
  ultimately have "length rest < length s"
    unfolding length_drop by arith
  then show "((rx, ty, rest, st1), (rx, ty, s, st)) \<in> measure (\<lambda>(rx, ty, s, st). length s)"
    by simp
next
  fix rx :: mathRegex and ty :: mathType and s :: string and st :: extraction
  assume "s \<noteq> []"
  then show "((rx, ty, tl s, st), (rx, ty, s, st)) \<in> measure (\<lambda>(rx, ty, s, st). length s)"
    by (cases s) auto
next
  fix rx :: mathRegex and ty :: mathType and s :: string and st :: extraction
  assume "s \<noteq> []"
  then show "((rx, ty, tl s, st), (rx, ty, s, st)) \<in> measure (\<lambda>(rx, ty, s, st). length s)"
    by (cases s) auto
qed

declare replaceMath.simps [simp del]

text \<open>The four passes, in the order of the source, from a fresh counter and an empty map.\<close>

definition extractMath :: "string \<Rightarrow> string \<times> extraction" where
  "extractMath text =
     (let st0 = \<lparr>counter = 0, latexMap = []\<rparr>;
          (t1, st1) = replaceMath DollarDollar Block text st0;
          (t2, st2) = replaceMath BackslashBracket Block t1 st1;
          (t3, st3) = replaceMath BackslashParen Inline t2 st2;
          (t4, st4) = replaceMath Dollar Inline t3 st3
      in (t4, st4))"


text \<open>
  The two external transforms. \<open>marked.parse(text)\<close> returns HTML or throws.
  \<open>katex.renderToString(math, {displayMode, ...})\<close> returns HTML or throws; \<open>Inl e\<close> is
  the thrown value as the template literal \<open>${e}\<close> prints it.
\<close>

type_synonym markdownTransform = "string \<Rightarrow> string + string"
type_synonym mathTransform = "string \<Rightarrow> bool \<Rightarrow> string + string"

text \<open>The fragment of the \<open>catch\<close> branch.\<close>

definition errorFragment :: "string \<Rightarrow> string \<Rightarrow> string" where
  \<open>errorFragment e math =
     ''<span class="text-red-400 error" title="'' @ e @ ''">$'' @ math @ ''$</span>''\<close>

text \<open>The body of the \<open>forEach\<close> callback: one entry of the map, applied to \<open>rawHtml\<close>.\<close>

fun restoreEntry :: "mathTransform \<Rightarrow> string \<Rightarrow> string \<times> mathType \<times> string \<Rightarrow> string" where
  "restoreEntry katex rawHtml (tok, ty, math) =
     (case katex math (ty = Block) of
        Inr rendered \<Rightarrow> join rendered (split tok rawHtml)
      | Inl e \<Rightarrow> join (errorFragment e math) (split tok rawHtml))"

text \<open>The callback of \<open>useMemo\<close>: the HTML of a text, or the error \<open>marked\<close> threw.\<close>

definition htmlContent :: "markdownTransform \<Rightarrow> mathTransform \<Rightarrow> string \<Rightarrow> string + string" where
  "htmlContent marked katex text =
     (if text = [] then Inr []
      else (let (protectedText, st) = extractMath text in
            case marked protectedText of
              Inl e \<Rightarrow> Inl e
            | Inr rawHtml \<Rightarrow> Inr (foldl (restoreEntry katex) rawHtml (latexMap st))))"

subsection \<open>The component\<close>

text \<open>
  The props with their optional fields, the returned \<open>div\<close>, and the memo cell of
  \<open>useMemo(f, [text])\<close>: the dependency of the last computation and its value. The hook
  returns the stored value when the dependency is unchanged and calls \<open>f\<close> otherwise.
\<close>

record props =
  textProp :: string
  classNameProp :: "string option"
  blockProp :: "bool option"

record element =
  className :: string
  innerHTML :: string

type_synonym memo = "(string \<times> string) option"

definition useMemo :: "(string \<Rightarrow> string + string) \<Rightarrow> string \<Rightarrow> memo \<Rightarrow> string + string \<times> memo" where
  "useMemo f dep cell =
     (case cell of
        Some (d, v) \<Rightarrow>
          if d = dep then Inr (v, cell)
          else (case f dep of Inl e \<Rightarrow> Inl e | Inr v' \<Rightarrow> Inr (v', Some (dep, v')))
      | None \<Rightarrow> (case f dep of Inl e \<Rightarrow> Inl e | Inr v' \<Rightarrow> Inr (v', Some (dep, v'))))"

definition LatexRenderer ::
  "markdownTransform \<Rightarrow> mathTransform \<Rightarrow> props \<Rightarrow> memo \<Rightarrow> string + element \<times> memo" where
  "LatexRenderer marked katex p cell =
     (let text = textProp p;
          className = (case classNameProp p of None \<Rightarrow> [] | Some c \<Rightarrow> c);
          block = (case blockProp p of None \<Rightarrow> False | Some b \<Rightarrow> b)
      in case useMemo (htmlContent marked katex) text cell of
           Inl e \<Rightarrow> Inl e
         | Inr (html, cell') \<Rightarrow>
             Inr (\<lparr>className = ''markdown-content '' @ className, innerHTML = html\<rparr>, cell'))"

text \<open>A sequence of renders of one mounted component, the memo cell passed from each to the next.\<close>

fun renders ::
  "markdownTransform \<Rightarrow> mathTransform \<Rightarrow> props list \<Rightarrow> memo \<Rightarrow> string + element list \<times> memo" where
  "renders marked katex [] cell = Inr ([], cell)"
| "renders marked katex (p # ps) cell =
     (case LatexRenderer marked katex p cell of
        Inl e \<Rightarrow> Inl e
      | Inr (el, cell') \<Rightarrow>
          (case renders marked katex ps cell' of
             Inl e \<Rightarrow> Inl e
           | Inr (els, cell'') \<Rightarrow> Inr (el # els, cell'')))"


section \<open>Loading the questions\<close>

text \<open>
  The values \<open>normalizeData\<close> handles are whatever \<open>response.json()\<close> produced, typed
  \<open>any\<close>: the model keeps the runtime's own case distinction. A finite number is its exact
  rational value. \<open>Object\<close> lists the own properties of a parsed object; \<open>Function\<close>
  stands for a built-in function reached through a prototype.
\<close>

datatype jsnum = NaN | PosInfinity | NegInfinity | Finite rat

datatype jsval =
    Undefined
  | Null
  | Boolean bool
  | Number jsnum
  | String string
  | Array "jsval list"
  | Object "(string \<times> jsval) list"
  | Function string

text \<open>A step that may throw, followed by the rest of the computation.\<close>

fun andThen :: "'e + 'a \<Rightarrow> ('a \<Rightarrow> 'e + 'b) \<Rightarrow> 'e + 'b" where
  "andThen (Inl e) f = Inl e"
| "andThen (Inr x) f = f x"

text \<open>Truthiness, \<open>a || b\<close>, and reading a property (a \<open>TypeError\<close> on null and undefined).\<close>

fun truthy :: "jsval \<Rightarrow> bool" where
  "truthy Undefined = False"
| "truthy Null = False"
| "truthy (Boolean b) = b"
| "truthy (Number n) = (n \<noteq> NaN \<and> n \<noteq> Finite 0)"
| "truthy (String s) = (s \<noteq> [])"
| "truthy (Array xs) = True"
| "truthy (Object ps) = True"
| "truthy (Function f) = True"

fun typeof :: "jsval \<Rightarrow> string" where
  "typeof Undefined = ''undefined''"
| "typeof Null = ''object''"
| "typeof (Boolean b) = ''boolean''"
| "typeof (Number n) = ''number''"
| "typeof (String s) = ''string''"
| "typeof (Array xs) = ''object''"
| "typeof (Object ps) = ''object''"
| "typeof (Function f) = ''function''"

definition or_else :: "jsval \<Rightarrow> jsval \<Rightarrow> jsval" where
  "or_else a b = (if truthy a then a else b)"

text \<open>
  The property names read here (\<open>questions\<close>, \<open>question\<close>, \<open>gold\<close>, \<open>answer\<close>,
  \<open>subject\<close>, \<open>index\<close>, \<open>solution\<close>) are not inherited from any prototype: only a
  parsed object can have them, as own properties.
\<close>

fun getProp :: "jsval \<Rightarrow> string \<Rightarrow> string + jsval" where
  "getProp Undefined k = Inl ''TypeError''"
| "getProp Null k = Inl ''TypeError''"
| "getProp (Object ps) k = Inr (case map_of ps k of Some v \<Rightarrow> v | None \<Rightarrow> Undefined)"
| "getProp v k = Inr Undefined"

text \<open>
  \<open>Number(v)\<close> and \<open>String(v)\<close>. The conversions that depend on the runtime's number
  grammar, number printing and object-to-primitive protocol (which can throw) are the
  parameter \<open>rt\<close>.
\<close>

record runtime =
  toNumberOther :: "jsval \<Rightarrow> string + jsnum"
  toStringOther :: "jsval \<Rightarrow> string + string"
  toLowerCase :: "string \<Rightarrow> string"

fun toNumber :: "runtime \<Rightarrow> jsval \<Rightarrow> string + jsnum" where
  "toNumber rt Undefined = Inr NaN"
| "toNumber rt Null = Inr (Finite 0)"
| "toNumber rt (Boolean b) = Inr (Finite (if b then 1 else 0))"
| "toNumber rt (Number n) = Inr n"
| "toNumber rt v = toNumberOther rt v"

fun toString :: "runtime \<Rightarrow> jsval \<Rightarrow> string + string" where
  "toString rt Undefined = Inr ''undefined''"
| "toString rt Null = Inr ''null''"
| "toString rt (Boolean b) = Inr (if b then ''true'' else ''false'')"
| "toString rt (String s) = Inr s"
| "toString rt v = toStringOther rt v"

record QuizQuestion =
  id :: jsnum
  question :: jsval
  options :: "(string \<times> string) list"
  answer :: string
  solution :: jsval
  subject :: string

definition FALLBACK_DATA :: "QuizQuestion list" where
  "FALLBACK_DATA =
     [\<lparr>id = Finite 1,
       question = String ''If $f(x) = x^2 + 2x + 1$, what is $f(1)$?'',
       options = [],
       answer = ''4'',
       solution = String ''Substitute $x=1$: $f(1) = 1^2 + 2(1) + 1 = 1 + 2 + 1 = 4$.'',
       subject = ''Mathematics''\<rparr>]"

text \<open>
  \<open>map[key]\<close> on the object literal of \<open>mapSubject\<close>: its three own properties, and the
  two all-lowercase names it inherits from \<open>Object.prototype\<close>.
\<close>

definition subjectTable :: "string \<Rightarrow> jsval" where
  "subjectTable key =
     (if key = ''phy'' then String ''Physics''
      else if key = ''chem'' then String ''Chemistry''
      else if key = ''math'' then String ''Mathematics''
      else if key = ''constructor'' then Function ''Object''
      else if key = ''__proto__'' then Object []
      else Undefined)"

text \<open>
  \<open>shortSubject?.toLowerCase()\<close> is \<open>undefined\<close> on null and undefined, a \<open>TypeError\<close> when
  the property is not a function, and the lower-cased string otherwise.
\<close>

definition mapSubject :: "runtime \<Rightarrow> jsval \<Rightarrow> string + jsval" where
  "mapSubject rt shortSubject =
     (case shortSubject of
        Undefined \<Rightarrow> Inr (or_else (or_else (subjectTable ''undefined'') shortSubject) (String ''General''))
      | Null \<Rightarrow> Inr (or_else (or_else (subjectTable ''undefined'') shortSubject) (String ''General''))
      | String s \<Rightarrow>
          Inr (or_else (or_else (subjectTable (toLowerCase rt s)) shortSubject) (String ''General''))
      | _ \<Rightarrow> Inl ''TypeError'')"

text \<open>The callback of \<open>list.map\<close>; \<open>None\<close> is its \<open>null\<close>.\<close>

definition normalizeItem :: "runtime \<Rightarrow> jsval \<Rightarrow> nat \<Rightarrow> string + QuizQuestion option" where
  "normalizeItem rt item index =
     (if \<not> truthy item \<or> typeof item \<noteq> ''object'' then Inr None
      else
        andThen (getProp item ''question'') (\<lambda>q.
        andThen (getProp item ''gold'') (\<lambda>gold.
        andThen (getProp item ''answer'') (\<lambda>ans.
        andThen (getProp item ''subject'') (\<lambda>subj.
        andThen (mapSubject rt subj) (\<lambda>subject.
        andThen (getProp item ''index'') (\<lambda>idx.
        andThen (toNumber rt idx) (\<lambda>idVal.
        andThen (toString rt (or_else (or_else gold ans) (String []))) (\<lambda>answerStr.
        andThen (getProp item ''solution'') (\<lambda>sol.
        andThen (toString rt subject) (\<lambda>subjectStr.
        Inr (Some
          \<lparr>id = (if idVal \<noteq> NaN \<and> idVal \<noteq> Finite 0 then idVal else Finite (of_nat (index + 1))),
           question = or_else q (String ''Question Text Missing''),
           options = [],
           answer = answerStr,
           solution = or_else sol (String []),
           subject = subjectStr\<rparr>))))))))))))"


text \<open>\<open>list.map(callback)\<close> with the index; the first exception ends it.\<close>

fun mapIndexed :: "('a \<Rightarrow> nat \<Rightarrow> 'e + 'b) \<Rightarrow> 'a list \<Rightarrow> nat \<Rightarrow> 'e + 'b list" where
  "mapIndexed f [] i = Inr []"
| "mapIndexed f (x # xs) i =
     andThen (f x i) (\<lambda>y. andThen (mapIndexed f xs (i + 1)) (\<lambda>ys. Inr (y # ys)))"

definition normalizeData :: "runtime \<Rightarrow> jsval \<Rightarrow> string + QuizQuestion list" where
  "normalizeData rt data =
     andThen (getProp data ''questions'') (\<lambda>questions.
       let list = (case questions of
                     Array xs \<Rightarrow> xs
                   | _ \<Rightarrow> (case data of Array ys \<Rightarrow> ys | _ \<Rightarrow> []))
       in andThen (mapIndexed (normalizeItem rt) list 0) (\<lambda>mapped.
            Inr (List.map_filter
                   (\<lambda>q. case q of
                          None \<Rightarrow> None
                        | Some q' \<Rightarrow> if truthy (question q') then Some q' else None)
                   mapped)))"

text \<open>
  What the two awaited promises of \<open>fetchQuestions\<close> can do: \<open>fetch\<close> rejects, or resolves
  with a response (its \<open>ok\<close> flag and status) whose \<open>json()\<close> rejects or resolves.
\<close>

datatype fetched = Rejected string | Response bool nat "string + jsval"

definition fetchQuestions :: "runtime \<Rightarrow> fetched \<Rightarrow> QuizQuestion list" where
  "fetchQuestions rt outcome =
     (case (case outcome of
              Rejected e \<Rightarrow> Inl e
            | Response ok status body \<Rightarrow>
                if \<not> ok then Inl (''Network response was not ok: '' @ decimal status)
                else andThen body (\<lambda>rawData.
                       andThen (normalizeData rt rawData) (\<lambda>normalizedData.
                         if length normalizedData = 0
                         then Inl ''Parsed data resulted in 0 valid questions''
                         else Inr normalizedData))) of
        Inl error \<Rightarrow> FALLBACK_DATA
      | Inr normalizedData \<Rightarrow> normalizedData)"

section \<open>Notions used in the statements\<close>

text \<open>A character of the classes \<open>0-9\<close>, \<open>A-Z\<close>, \<open>a-z\<close>.\<close>

definition alphanumeric :: "char \<Rightarrow> bool" where
  "alphanumeric c =
     (let n = (of_char c :: nat)
      in (48 \<le> n \<and> n \<le> 57) \<or> (65 \<le> n \<and> n \<le> 90) \<or> (97 \<le> n \<and> n \<le> 122))"

text \<open>The keys of the table are the tokens of the counter values below \<open>counter\<close>, in order.\<close>

definition numbered :: "extraction \<Rightarrow> bool" where
  "numbered st = (map fst (latexMap st) = map token [0..<counter st])"

text \<open>A memo cell that holds nothing, or a value that \<open>f\<close> returned for the stored dependency.\<close>

definition memoFor :: "(string \<Rightarrow> string + string) \<Rightarrow> memo \<Rightarrow> bool" where
  "memoFor f cell = (case cell of None \<Rightarrow> True | Some (d, v) \<Rightarrow> f d = Inr v)"

text \<open>The string the callback substitutes for a span's token, in either branch.\<close>

definition fragment :: "mathTransform \<Rightarrow> mathType \<Rightarrow> string \<Rightarrow> string" where
  "fragment katex ty math =
     (case katex math (ty = Block) of Inr rendered \<Rightarrow> rendered | Inl e \<Rightarrow> errorFragment e math)"

text \<open>
  A fragment that cannot forge a token: it is not empty, its first and last characters are
  not alphanumeric, and none of the given tokens occurs in it.
\<close>

definition cleanFragment :: "string list \<Rightarrow> string \<Rightarrow> bool" where
  "cleanFragment toks frag =
     (frag \<noteq> [] \<and> \<not> alphanumeric (hd frag) \<and> \<not> alphanumeric (last frag)
      \<and> list_all (\<lambda>t. \<not> sublist t frag) toks)"

text \<open>
  Two strings that can share characters when both occur in a third: one inside the other,
  or an end of one that is also a beginning of the other.
\<close>

definition overlapping :: "string \<Rightarrow> string \<Rightarrow> bool" where
  "overlapping w t =
     (sublist w t \<or> sublist t w
      \<or> (\<exists>y. y \<noteq> [] \<and> suffix y w \<and> prefix y t)
      \<or> (\<exists>y. y \<noteq> [] \<and> prefix y w \<and> suffix y t))"

section \<open>Facts about searching and the extraction scan\<close>

lemma find_first_None: "find_first lit s = None \<Longrightarrow> \<not> sublist lit s"
proof (induction s)
  case Nil
  then show ?case by (simp split: if_splits)
next
  case (Cons c s)
  then show ?case
    by (auto simp: sublist_Cons_right split: if_splits option.splits)
qed

lemma find_first_fresh:
  "c \<notin> set m \<Longrightarrow> find_first (c # l) (m @ (c # l) @ rest) = Some (m, rest)"
  by (induction m) (auto simp: prefix_def)

lemma replaceMath_Nil: "replaceMath rx ty [] st = ([], st)"
  by (simp add: replaceMath.simps)


section \<open>Tokens and the numbering of the table\<close>

lemma digit_inj: "a < 10 \<Longrightarrow> b < 10 \<Longrightarrow> digit a = digit b \<Longrightarrow> a = b"
proof -
  assume a: "a < 10" and b: "b < 10" and e: "digit a = digit b"
  have d: "distinct ''0123456789''" by simp
  have "(''0123456789'' ! a = ''0123456789'' ! b) = (a = b)"
    by (rule nth_eq_iff_index_eq [OF d]) (use a b in simp_all)
  with e show ?thesis by (simp add: digit_def)
qed

lemma decimal_length: "1 \<le> length (decimal n) \<and> (10 \<le> n \<longrightarrow> 2 \<le> length (decimal n))"
proof (induction n rule: decimal.induct)
  case (1 n)
  show ?case
  proof (cases "n < 10")
    case True
    then show ?thesis by (subst decimal.simps, subst (2) decimal.simps) simp
  next
    case False
    with "1.IH" show ?thesis by (subst decimal.simps, subst (2) decimal.simps) simp
  qed
qed

lemma decimal_inj: "decimal m = decimal n \<Longrightarrow> m = n"
proof (induction m arbitrary: n rule: decimal.induct)
  case (1 m)
  show ?case
  proof (cases "m < 10")
    case m: True
    show ?thesis
    proof (cases "n < 10")
      case True
      with m "1.prems" have "digit m = digit n"
        by (simp add: decimal.simps [of m] decimal.simps [of n])
      with m True show ?thesis by (rule digit_inj)
    next
      case False
      then have "2 \<le> length (decimal n)" using decimal_length [of n] by simp
      moreover from m have "length (decimal m) = 1" by (simp add: decimal.simps [of m])
      ultimately show ?thesis using "1.prems" by simp
    qed
  next
    case m: False
    show ?thesis
    proof (cases "n < 10")
      case True
      then have "length (decimal n) = 1" by (simp add: decimal.simps [of n])
      moreover from m have "2 \<le> length (decimal m)" using decimal_length [of m] by simp
      ultimately show ?thesis using "1.prems" by simp
    next
      case False
      with m "1.prems" have e: "decimal (m div 10) @ [digit (m mod 10)] = decimal (n div 10) @ [digit (n mod 10)]"
        by (simp add: decimal.simps [of m] decimal.simps [of n])
      then have "decimal (m div 10) = decimal (n div 10)" and d: "digit (m mod 10) = digit (n mod 10)"
        by simp_all
      then have "m div 10 = n div 10" using "1.IH" [OF m] by simp
      moreover have "m mod 10 = n mod 10"
        by (rule digit_inj [OF _ _ d]) simp_all
      ultimately show ?thesis by (metis div_mult_mod_eq)
    qed
  qed
qed

lemma token_inj: "token m = token n \<Longrightarrow> m = n"
  by (simp add: token_def decimal_inj)

lemma digit_alphanumeric: "d < 10 \<Longrightarrow> alphanumeric (digit d)"
proof -
  assume "d < 10"
  moreover have "list_all alphanumeric ''0123456789''"
    by (simp add: alphanumeric_def)
  ultimately show ?thesis
    by (simp add: digit_def list_all_length)
qed

lemma decimal_alphanumeric: "list_all alphanumeric (decimal n)"
proof (induction n rule: decimal.induct)
  case (1 n)
  show ?case
  proof (cases "n < 10")
    case True
    then show ?thesis using digit_alphanumeric [of n] by (subst decimal.simps) simp
  next
    case False
    have "alphanumeric (digit (n mod 10))" by (rule digit_alphanumeric) simp
    with False "1.IH" show ?thesis by (subst decimal.simps) simp
  qed
qed

lemma token_alphanumeric: "list_all alphanumeric (token n)"
proof -
  have "list_all alphanumeric ''MATHITEM''" "list_all alphanumeric ''END''"
    by (simp_all add: alphanumeric_def)
  with decimal_alphanumeric [of n] show ?thesis
    unfolding token_def list_all_append by blast
qed

lemma token_nonempty: "token n \<noteq> []"
  by (simp add: token_def)

lemma update_fresh: "k \<notin> fst ` set al \<Longrightarrow> AList.update k v al = al @ [(k, v)]"
  by (induction al) auto

lemma store_numbered:
  assumes "numbered st" "store ty math st = (tok, st')"
  shows "numbered st'" "counter st' = Suc (counter st)" "tok = token (counter st)"
    "latexMap st' = latexMap st @ [(tok, ty, math)]"
proof -
  from assms(2) have st': "st' = \<lparr>counter = counter st + 1,
       latexMap = AList.update (token (counter st)) (ty, math) (latexMap st)\<rparr>"
    and tok: "tok = token (counter st)"
    by (auto simp: store_def)
  have "token (counter st) \<notin> set (map token [0..<counter st])"
    by (auto dest: token_inj)
  with assms(1) have "token (counter st) \<notin> fst ` set (latexMap st)"
    by (simp add: numbered_def flip: set_map)
  then have u: "AList.update (token (counter st)) (ty, math) (latexMap st) = latexMap st @ [(token (counter st), ty, math)]"
    by (rule update_fresh)
  show "tok = token (counter st)" by (rule tok)
  show "counter st' = Suc (counter st)" by (simp add: st')
  show "latexMap st' = latexMap st @ [(tok, ty, math)]" by (simp add: st' u tok)
  then show "numbered st'" using assms(1) by (simp add: numbered_def st' tok)
qed

lemma replaceMath_numbered:
  "numbered st \<Longrightarrow> replaceMath rx ty s st = (out, st') \<Longrightarrow>
     numbered st' \<and> counter st \<le> counter st' \<and> (\<exists>new. latexMap st' = latexMap st @ new)"
proof (induction rx ty s st arbitrary: out st' rule: replaceMath.induct)
  case (1 rx ty s st)
  show ?case
  proof (cases "s = []")
    case True
    with "1.prems" show ?thesis by (simp add: replaceMath.simps)
  next
    case ne: False
    show ?thesis
    proof (cases "prefix (openDelim rx) s")
      case False
      obtain o1 s1 where r: "replaceMath rx ty (tl s) st = (o1, s1)" by force
      with "1.prems"(2) ne False have "st' = s1"
        by (subst (asm) replaceMath.simps) simp
      with "1.IH"(3) [OF ne False "1.prems"(1) r] show ?thesis by simp
    next
      case pre: True
      show ?thesis
      proof (cases "find_first (closeDelim rx) (drop (length (openDelim rx)) s)")
        case None
        obtain o1 s1 where r: "replaceMath rx ty (tl s) st = (o1, s1)" by force
        with "1.prems"(2) ne pre None have "st' = s1"
          by (subst (asm) replaceMath.simps) simp
        with "1.IH"(1) [OF ne pre None "1.prems"(1) r] show ?thesis by simp
      next
        case (Some a)
        obtain math rest where a: "a = (math, rest)" by force
        obtain tok st1 where s: "store ty math st = (tok, st1)" by force
        obtain o2 s2 where r: "replaceMath rx ty rest st1 = (o2, s2)" by force
        from "1.prems"(2) ne pre Some a s r have "st' = s2"
          by (subst (asm) replaceMath.simps) simp
        moreover note store_numbered [OF "1.prems"(1) s]
        moreover note "1.IH"(2) [OF ne pre Some a [symmetric] s [symmetric] refl \<open>numbered st1\<close> r]
        ultimately show ?thesis by auto
      qed
    qed
  qed
qed

lemma extractMath_numbered: "extractMath text = (pt, st) \<Longrightarrow> numbered st"
proof -
  assume e: "extractMath text = (pt, st)"
  let ?st0 = "\<lparr>counter = 0, latexMap = []\<rparr>"
  obtain t1 st1 where 1: "replaceMath DollarDollar Block text ?st0 = (t1, st1)" by force
  obtain t2 st2 where 2: "replaceMath BackslashBracket Block t1 st1 = (t2, st2)" by force
  obtain t3 st3 where 3: "replaceMath BackslashParen Inline t2 st2 = (t3, st3)" by force
  obtain t4 st4 where 4: "replaceMath Dollar Inline t3 st3 = (t4, st4)" by force
  have "numbered ?st0" by (simp add: numbered_def)
  then have "numbered st1" using replaceMath_numbered [OF _ 1] by simp
  then have "numbered st2" using replaceMath_numbered [OF _ 2] by simp
  then have "numbered st3" using replaceMath_numbered [OF _ 3] by simp
  then have "numbered st4" using replaceMath_numbered [OF _ 4] by simp
  moreover from e 1 2 3 4 have "st = st4" by (simp add: extractMath_def)
  ultimately show ?thesis by simp
qed

section \<open>The memo cell of the component\<close>

lemma useMemo_fresh:
  "memoFor f cell \<Longrightarrow>
   useMemo f dep cell = (case f dep of Inl e \<Rightarrow> Inl e | Inr v \<Rightarrow> Inr (v, Some (dep, v)))"
  by (auto simp: memoFor_def useMemo_def split: option.splits sum.splits)

lemma LatexRenderer_memoFor:
  assumes "memoFor (htmlContent marked katex) cell"
    and "LatexRenderer marked katex p cell = Inr (el, cell')"
  shows "memoFor (htmlContent marked katex) cell'"
    and "htmlContent marked katex (textProp p) = Inr (innerHTML el)"
  using assms(2) unfolding LatexRenderer_def useMemo_fresh [OF assms(1)]
  by (auto simp: memoFor_def Let_def split: sum.splits)

lemma renders_fresh:
  "memoFor (htmlContent marked katex) cell \<Longrightarrow>
   renders marked katex ps cell = Inr (els, cell') \<Longrightarrow>
   map (\<lambda>p. htmlContent marked katex (textProp p)) ps = map (\<lambda>el. Inr (innerHTML el)) els"
proof (induction ps arbitrary: cell els)
  case Nil
  then show ?case by simp
next
  case (Cons p ps)
  from Cons.prems(2) obtain el c1 els1 where
    r1: "LatexRenderer marked katex p cell = Inr (el, c1)" and
    r2: "renders marked katex ps c1 = Inr (els1, cell')" and
    els: "els = el # els1"
    by (auto split: sum.splits)
  note LatexRenderer_memoFor [OF Cons.prems(1) r1]
  with Cons.IH [OF _ r2] els show ?case by simp
qed

section \<open>Splitting and joining\<close>

lemma find_first_before:
  "find_first lit s = Some (before, rest) \<Longrightarrow> lit \<noteq> [] \<Longrightarrow> \<not> sublist lit before"
proof (induction s arbitrary: before)
  case Nil
  then show ?case by (simp split: if_splits)
next
  case (Cons c s)
  show ?case
  proof (cases "prefix lit (c # s)")
    case True
    with Cons.prems show ?thesis by simp
  next
    case False
    with Cons.prems(1) obtain b where b: "find_first lit s = Some (b, rest)" "before = c # b"
      by (auto split: option.splits)
    have "\<not> sublist lit b" using Cons.IH [OF b(1) Cons.prems(2)] .
    moreover have "\<not> prefix lit (c # b)"
    proof
      assume "prefix lit (c # b)"
      moreover have "prefix (c # b) (c # s)"
        using find_first_decomp [OF b(1)] by simp
      ultimately have "prefix lit (c # s)" by (rule prefix_order.trans)
      with False show False by simp
    qed
    ultimately show ?thesis by (simp add: b(2) sublist_Cons_right)
  qed
qed

lemma split_pieces:
  "sep \<noteq> [] \<Longrightarrow> p \<in> set (split sep s) \<Longrightarrow> sublist p s \<and> \<not> sublist sep p"
proof (induction sep s arbitrary: p rule: split.induct)
  case (1 sep s)
  show ?case
  proof (cases "find_first sep s")
    case None
    with "1.prems" have "p = s" by (simp add: split.simps [of sep s])
    with None show ?thesis by (simp add: find_first_None)
  next
    case (Some a)
    obtain before rest where a: "a = (before, rest)" by force
    have s: "s = before @ sep @ rest" using find_first_decomp Some a by simp
    from "1.prems" Some a have "p = before \<or> p \<in> set (split sep rest)"
      by (simp add: split.simps [of sep s])
    then show ?thesis
    proof
      assume "p = before"
      moreover have "\<not> sublist sep before"
        using find_first_before Some a "1.prems"(1) by simp
      moreover have "sublist before s"
        by (subst s) simp
      ultimately show ?thesis by simp
    next
      assume "p \<in> set (split sep rest)"
      with "1.IH" [OF "1.prems"(1) Some a [symmetric] "1.prems"(1)]
      have "sublist p rest" "\<not> sublist sep p" by simp_all
      moreover have "sublist rest s"
        unfolding sublist_def by (rule exI [of _ "before @ sep"], rule exI [of _ "[]"]) (simp add: s)
      ultimately show ?thesis using sublist_order.order.trans by blast
    qed
  qed
qed

lemma join_split: "sep \<noteq> [] \<Longrightarrow> join sep (split sep s) = s"
proof (induction sep s rule: split.induct)
  case (1 sep s)
  show ?case
  proof (cases "find_first sep s")
    case None
    then show ?thesis using "1.prems" by (simp add: split.simps [of sep s])
  next
    case (Some a)
    obtain before rest where a: "a = (before, rest)" by force
    have s: "s = before @ sep @ rest" using find_first_decomp Some a by simp
    have ih: "join sep (split sep rest) = rest"
      using "1.IH" [OF "1.prems" Some a [symmetric] "1.prems"] .
    have ne: "split sep rest \<noteq> []"
      using "1.prems" by (subst split.simps) (simp split: option.splits)
    then obtain q qs where q: "split sep rest = q # qs" by (cases "split sep rest") auto
    have "join sep (before # split sep rest) = before @ sep @ join sep (split sep rest)"
      by (simp add: q)
    moreover have "split sep s = before # split sep rest"
      using Some a "1.prems" by (simp add: split.simps [of sep s])
    ultimately show ?thesis using ih s by simp
  qed
qed

lemma sublist_across_char:
  assumes "x \<notin> set w" "sublist w (a @ x # c)"
  shows "sublist w a \<or> sublist w c"
proof -
  from assms(2) consider "sublist w a" | "sublist w (x # c)"
    | w1 w2 where "w = w1 @ w2" "suffix w1 a" "prefix w2 (x # c)"
    unfolding sublist_append by blast
  then show ?thesis
  proof cases
    case 1
    then show ?thesis by simp
  next
    case 2
    then have "prefix w (x # c) \<or> sublist w c" by (simp add: sublist_Cons_right)
    then show ?thesis
    proof
      assume "prefix w (x # c)"
      with assms(1) have "w = []" by (cases w) auto
      then show ?thesis by simp
    qed simp
  next
    case 3
    show ?thesis
    proof (cases w2)
      case Nil
      with 3(1,2) show ?thesis by simp
    next
      case (Cons y ys)
      with 3(3) have "x \<in> set w2" by simp
      with 3(1) assms(1) show ?thesis by simp
    qed
  qed
qed

section \<open>Restoration removes the tokens it is given\<close>

lemma restoreEntry_fragment:
  "restoreEntry katex rawHtml (tok, ty, math) = join (fragment katex ty math) (split tok rawHtml)"
  by (simp add: fragment_def split: sum.splits)

lemma sublist_across_fragment:
  assumes w: "list_all alphanumeric w"
    and r: "r \<noteq> []" "\<not> alphanumeric (hd r)" "\<not> alphanumeric (last r)" "\<not> sublist w r"
    and s: "sublist w (a @ r @ b)"
  shows "sublist w a \<or> sublist w b"
proof -
  from w r(2) have h: "hd r \<notin> set w" by (auto simp: list_all_iff)
  from w r(3) have l: "last r \<notin> set w" by (auto simp: list_all_iff)
  from r(1) have "a @ r @ b = a @ hd r # (tl r @ b)" by simp
  with s have "sublist w a \<or> sublist w (tl r @ b)"
    using sublist_across_char [OF h] by metis
  then show ?thesis
  proof
    assume m: "sublist w (tl r @ b)"
    show ?thesis
    proof (cases "tl r = []")
      case True
      with m show ?thesis by simp
    next
      case False
      then have "tl r = butlast (tl r) @ [last r]"
        using r(1) by (metis append_butlast_last_id last_tl)
      then have "tl r @ b = butlast (tl r) @ last r # b"
        by (metis append_Cons append_Nil append_assoc)
      with m have "sublist w (butlast (tl r)) \<or> sublist w b"
        using sublist_across_char [OF l] by metis
      moreover have "sublist (butlast (tl r)) r"
        by (meson sublist_butlast sublist_tl sublist_order.order.trans)
      ultimately show ?thesis
        using r(4) sublist_order.order.trans by blast
    qed
  qed simp
qed

lemma sublist_join:
  assumes "list_all alphanumeric w" "w \<noteq> []"
    and "r \<noteq> []" "\<not> alphanumeric (hd r)" "\<not> alphanumeric (last r)" "\<not> sublist w r"
  shows "sublist w (join r ps) \<Longrightarrow> \<exists>p\<in>set ps. sublist w p"
proof (induction ps rule: induct_list012)
  case 1
  with assms(2) show ?case by simp
next
  case (2 p)
  then show ?case by simp
next
  case (3 p q ps)
  from "3.prems" have "sublist w (p @ r @ join r (q # ps))" by simp
  then have "sublist w p \<or> sublist w (join r (q # ps))"
    by (rule sublist_across_fragment [OF assms(1) assms(3-6)])
  with "3.IH"(2) show ?case by auto
qed

lemma restore_step_absent:
  assumes "list_all alphanumeric w" "w \<noteq> []" "tok \<noteq> []"
    and "frag \<noteq> []" "\<not> alphanumeric (hd frag)" "\<not> alphanumeric (last frag)" "\<not> sublist w frag"
    and "w = tok \<or> \<not> sublist w h"
  shows "\<not> sublist w (join frag (split tok h))"
proof
  assume "sublist w (join frag (split tok h))"
  then obtain p where p: "p \<in> set (split tok h)" "sublist w p"
    using sublist_join [OF assms(1,2,4-7)] by blast
  from split_pieces [OF assms(3) p(1)] have "sublist p h" "\<not> sublist tok p" by simp_all
  with p(2) assms(8) show False
    using sublist_order.order.trans by blast
qed

lemma restore_all_absent:
  assumes toks: "list_all (\<lambda>t. list_all alphanumeric t \<and> t \<noteq> []) toks"
  shows "list_all (\<lambda>(tok, ty, math). cleanFragment toks (fragment katex ty math)) es \<Longrightarrow>
     set (map fst es) \<subseteq> set toks \<Longrightarrow>
     list_all (\<lambda>w. w \<in> set (map fst es) \<or> \<not> sublist w h) toks \<Longrightarrow>
     list_all (\<lambda>w. \<not> sublist w (foldl (restoreEntry katex) h es)) toks"
proof (induction es arbitrary: h)
  case Nil
  then show ?case by simp
next
  case (Cons e es)
  obtain tok ty math where e: "e = (tok, ty, math)" by (cases e) auto
  let ?frag = "fragment katex ty math"
  let ?h = "join ?frag (split tok h)"
  from Cons.prems(1) e have c: "cleanFragment toks ?frag" by simp
  from Cons.prems(2) e have tok: "tok \<in> set toks" by simp
  with toks have tk: "tok \<noteq> []" by (auto simp: list_all_iff)
  have "list_all (\<lambda>w. w \<in> set (map fst es) \<or> \<not> sublist w ?h) toks"
    unfolding list_all_iff
  proof
    fix w assume w: "w \<in> set toks"
    with toks have wa: "list_all alphanumeric w" "w \<noteq> []" by (auto simp: list_all_iff)
    from c w have f: "?frag \<noteq> []" "\<not> alphanumeric (hd ?frag)" "\<not> alphanumeric (last ?frag)"
      "\<not> sublist w ?frag"
      by (auto simp: cleanFragment_def list_all_iff)
    from Cons.prems(3) w e have "w = tok \<or> w \<in> set (map fst es) \<or> \<not> sublist w h"
      by (auto simp: list_all_iff)
    then show "w \<in> set (map fst es) \<or> \<not> sublist w ?h"
      using restore_step_absent [OF wa tk f] by blast
  qed
  moreover from Cons.prems(1) have "list_all (\<lambda>(tok, ty, math). cleanFragment toks (fragment katex ty math)) es"
    by simp
  moreover from Cons.prems(2) have "set (map fst es) \<subseteq> set toks" by simp
  ultimately have "list_all (\<lambda>w. \<not> sublist w (foldl (restoreEntry katex) ?h es)) toks"
    by (rule Cons.IH [rotated 2])
  then show ?case
    unfolding e foldl_Cons restoreEntry_fragment .
qed

section \<open>The callback of useMemo\<close>

lemma extractMath_Nil: "extractMath [] = ([], \<lparr>counter = 0, latexMap = []\<rparr>)"
  by (simp add: extractMath_def replaceMath_Nil)

lemma htmlContent_restore:
  "text \<noteq> [] \<Longrightarrow> extractMath text = (protectedText, st) \<Longrightarrow>
   htmlContent marked katex text =
     (case marked protectedText of
        Inl e \<Rightarrow> Inl e
      | Inr rawHtml \<Rightarrow> Inr (foldl (restoreEntry katex) rawHtml (latexMap st)))"
  by (simp add: htmlContent_def)

section \<open>Single spans and texts without spans\<close>


lemma replaceMath_single:
  assumes "hd (closeDelim rx) \<notin> set math"
  shows "replaceMath rx ty (openDelim rx @ math @ closeDelim rx) st = store ty math st"
proof -
  let ?s = "openDelim rx @ math @ closeDelim rx"
  have o: "openDelim rx \<noteq> []" by (cases rx) simp_all
  obtain c l where cl: "closeDelim rx = c # l" by (cases rx) simp_all
  with assms have "c \<notin> set math" by simp
  then have "find_first (c # l) (math @ (c # l) @ []) = Some (math, [])"
    by (rule find_first_fresh)
  then have f: "find_first (closeDelim rx) (drop (length (openDelim rx)) ?s) = Some (math, [])"
    by (simp add: cl)
  have p: "prefix (openDelim rx) ?s" by simp
  from o have ne: "?s \<noteq> []" by simp
  obtain tok st1 where s: "store ty math st = (tok, st1)" by force
  show ?thesis
    by (subst replaceMath.simps) (simp only: ne p f s replaceMath_Nil if_True if_False
        option.case prod.case Let_def append_Nil2)
qed


section \<open>The table by rule\<close>

lemma replaceMath_appends:
  "numbered st \<Longrightarrow> replaceMath rx ty s st = (out, st') \<Longrightarrow>
     \<exists>new. latexMap st' = latexMap st @ new \<and> list_all (\<lambda>e. fst (snd e) = ty) new"
proof (induction rx ty s st arbitrary: out st' rule: replaceMath.induct)
  case (1 rx ty s st)
  show ?case
  proof (cases "s = []")
    case True
    with "1.prems" show ?thesis by (simp add: replaceMath.simps)
  next
    case ne: False
    show ?thesis
    proof (cases "prefix (openDelim rx) s")
      case False
      obtain o1 s1 where r: "replaceMath rx ty (tl s) st = (o1, s1)" by force
      with "1.prems"(2) ne False have "st' = s1"
        by (subst (asm) replaceMath.simps) simp
      with "1.IH"(3) [OF ne False "1.prems"(1) r] show ?thesis by simp
    next
      case pre: True
      show ?thesis
      proof (cases "find_first (closeDelim rx) (drop (length (openDelim rx)) s)")
        case None
        obtain o1 s1 where r: "replaceMath rx ty (tl s) st = (o1, s1)" by force
        with "1.prems"(2) ne pre None have "st' = s1"
          by (subst (asm) replaceMath.simps) simp
        with "1.IH"(1) [OF ne pre None "1.prems"(1) r] show ?thesis by simp
      next
        case (Some a)
        obtain math rest where a: "a = (math, rest)" by force
        obtain tok st1 where s: "store ty math st = (tok, st1)" by force
        obtain o2 s2 where r: "replaceMath rx ty rest st1 = (o2, s2)" by force
        from "1.prems"(2) ne pre Some a s r have st': "st' = s2"
          by (subst (asm) replaceMath.simps) simp
        note sn = store_numbered [OF "1.prems"(1) s]
        from "1.IH"(2) [OF ne pre Some a [symmetric] s [symmetric] refl sn(1) r]
        obtain new where "latexMap s2 = latexMap st1 @ new" "list_all (\<lambda>e. fst (snd e) = ty) new"
          by blast
        with sn(4) st' have "latexMap st' = latexMap st @ ((tok, ty, math) # new)"
          "list_all (\<lambda>e. fst (snd e) = ty) ((tok, ty, math) # new)"
          by simp_all
        then show ?thesis by blast
      qed
    qed
  qed
qed

lemma extractMath_blocks_first:
  "latexMap (snd (extractMath text)) =
     filter (\<lambda>e. fst (snd e) = Block) (latexMap (snd (extractMath text))) @
     filter (\<lambda>e. fst (snd e) = Inline) (latexMap (snd (extractMath text)))"
proof -
  let ?st0 = "\<lparr>counter = 0, latexMap = []\<rparr>"
  obtain t1 st1 where 1: "replaceMath DollarDollar Block text ?st0 = (t1, st1)" by force
  obtain t2 st2 where 2: "replaceMath BackslashBracket Block t1 st1 = (t2, st2)" by force
  obtain t3 st3 where 3: "replaceMath BackslashParen Inline t2 st2 = (t3, st3)" by force
  obtain t4 st4 where 4: "replaceMath Dollar Inline t3 st3 = (t4, st4)" by force
  have n0: "numbered ?st0" by (simp add: numbered_def)
  then have n1: "numbered st1" using replaceMath_numbered [OF _ 1] by simp
  then have n2: "numbered st2" using replaceMath_numbered [OF _ 2] by simp
  then have n3: "numbered st3" using replaceMath_numbered [OF _ 3] by simp
  from replaceMath_appends [OF n0 1] obtain e1 where
    e1: "latexMap st1 = e1" "list_all (\<lambda>e. fst (snd e) = Block) e1" by auto
  from replaceMath_appends [OF n1 2] obtain e2 where
    e2: "latexMap st2 = latexMap st1 @ e2" "list_all (\<lambda>e. fst (snd e) = Block) e2" by auto
  from replaceMath_appends [OF n2 3] obtain e3 where
    e3: "latexMap st3 = latexMap st2 @ e3" "list_all (\<lambda>e. fst (snd e) = Inline) e3" by auto
  from replaceMath_appends [OF n3 4] obtain e4 where
    e4: "latexMap st4 = latexMap st3 @ e4" "list_all (\<lambda>e. fst (snd e) = Inline) e4" by auto
  have st: "snd (extractMath text) = st4"
    using 1 2 3 4 by (simp add: extractMath_def)
  have f: "filter P xs = xs" if "list_all P xs" for P and xs :: "(string \<times> mathType \<times> string) list"
    using that by (simp add: list_all_iff)
  have g: "filter (\<lambda>e. fst (snd e) = a) xs = []" if "list_all (\<lambda>e. fst (snd e) = b) xs" "a \<noteq> b"
    for a b and xs :: "(string \<times> mathType \<times> string) list"
    using that by (auto simp: list_all_iff filter_empty_conv)
  have "latexMap st4 = (e1 @ e2) @ (e3 @ e4)"
    using e1 e2 e3 e4 by simp
  moreover have "filter (\<lambda>e. fst (snd e) = Block) ((e1 @ e2) @ (e3 @ e4)) = e1 @ e2"
    using f [OF e1(2)] f [OF e2(2)] g [OF e3(2), of Block] g [OF e4(2), of Block] by simp
  moreover have "filter (\<lambda>e. fst (snd e) = Inline) ((e1 @ e2) @ (e3 @ e4)) = e3 @ e4"
    using f [OF e3(2)] f [OF e4(2)] g [OF e1(2), of Inline] g [OF e2(2), of Inline] by simp
  ultimately show ?thesis unfolding st by simp
qed

section \<open>A dollar sign without a partner\<close>











section \<open>Restoration keeps what it has placed\<close>

lemma sublist_around:
  assumes "sublist w (a @ t @ b)"
  shows "sublist w a \<or> sublist w b \<or> overlapping w t"
proof -
  from assms consider "sublist w a" | "sublist w (t @ b)"
    | w1 w2 where "w = w1 @ w2" "suffix w1 a" "prefix w2 (t @ b)"
    unfolding sublist_append [of w a] by blast
  then show ?thesis
  proof cases
    case 1
    then show ?thesis by simp
  next
    case 2
    then consider "sublist w t" | "sublist w b"
      | v1 v2 where "w = v1 @ v2" "suffix v1 t" "prefix v2 b"
      unfolding sublist_append [of w t] by blast
    then show ?thesis
    proof cases
      case 1
      then show ?thesis by (simp add: overlapping_def)
    next
      case 2
      then show ?thesis by simp
    next
      case 3
      show ?thesis
      proof (cases "v1 = []")
        case True
        with 3 have "sublist w b" by simp
        then show ?thesis by simp
      next
        case False
        moreover from 3(1) have "prefix v1 w" by (simp add: prefix_def)
        ultimately have "overlapping w t"
          using 3(2) unfolding overlapping_def by blast
        then show ?thesis by simp
      qed
    qed
  next
    case 3
    from 3(3) consider "prefix w2 t" | u where "w2 = t @ u"
      unfolding prefix_append by blast
    then show ?thesis
    proof cases
      case 1
      show ?thesis
      proof (cases "w2 = []")
        case True
        with 3 have "sublist w a" by simp
        then show ?thesis by simp
      next
        case False
        moreover from 3(1) have "suffix w2 w" by (simp add: suffix_def)
        ultimately have "overlapping w t"
          using 1 unfolding overlapping_def by blast
        then show ?thesis by simp
      qed
    next
      case 2
      with 3(1) have "sublist t w" by simp
      then show ?thesis by (simp add: overlapping_def)
    qed
  qed
qed

lemma not_overlapping_fragment:
  assumes t: "list_all alphanumeric t"
    and f: "f \<noteq> []" "\<not> alphanumeric (hd f)" "\<not> alphanumeric (last f)" "\<not> sublist t f"
  shows "\<not> overlapping f t"
proof
  from t f(2) have h: "hd f \<notin> set t" by (auto simp: list_all_iff)
  from t f(3) have l: "last f \<notin> set t" by (auto simp: list_all_iff)
  assume "overlapping f t"
  then consider "sublist f t" | "sublist t f"
    | y where "y \<noteq> []" "suffix y f" "prefix y t"
    | y where "y \<noteq> []" "prefix y f" "suffix y t"
    unfolding overlapping_def by blast
  then show False
  proof cases
    case 1
    then have "set f \<subseteq> set t" by (rule set_mono_sublist)
    with f(1) h show False by (cases f) auto
  next
    case 2
    with f(4) show False by simp
  next
    case 3
    from 3(1,2) have "last y = last f" by (auto simp: suffix_def)
    moreover from 3(1) have "last y \<in> set y" by simp
    moreover from 3(3) have "set y \<subseteq> set t" by (rule set_mono_prefix)
    ultimately show False using l by auto
  next
    case 4
    from 4(1,2) have "hd y = hd f" by (auto simp: prefix_def)
    moreover from 4(1) have "hd y \<in> set y" by simp
    moreover from 4(3) have "set y \<subseteq> set t" by (rule set_mono_suffix)
    ultimately show False using h by auto
  qed
qed

lemma join_Cons: "ps \<noteq> [] \<Longrightarrow> join r (p # ps) = p @ r @ join r ps"
  by (cases ps) simp_all

lemma split_nonempty: "t \<noteq> [] \<Longrightarrow> split t h \<noteq> []"
  by (subst split.simps) (simp split: option.splits)

lemma split_Some:
  "t \<noteq> [] \<Longrightarrow> find_first t h = Some (before, rest) \<Longrightarrow>
   join r (split t h) = before @ r @ join r (split t rest)"
  by (subst split.simps) (simp add: join_Cons split_nonempty)

lemma split_None: "t \<noteq> [] \<Longrightarrow> find_first t h = None \<Longrightarrow> join r (split t h) = h"
  by (subst split.simps) simp

lemma survives:
  "t \<noteq> [] \<Longrightarrow> sublist w h \<Longrightarrow> \<not> overlapping w t \<Longrightarrow> sublist w (join r (split t h))"
proof (induction "length h" arbitrary: h rule: less_induct)
  case less
  show ?case
  proof (cases "find_first t h")
    case None
    with less.prems(1) have "join r (split t h) = h" by (rule split_None)
    with less.prems(2) show ?thesis by simp
  next
    case (Some a)
    obtain before rest where a: "a = (before, rest)" by force
    with Some have f: "find_first t h = Some (before, rest)" by simp
    have h: "h = before @ t @ rest" using find_first_decomp [OF f] .
    have j: "join r (split t h) = before @ r @ join r (split t rest)"
      using less.prems(1) f by (rule split_Some)
    from less.prems(2) h have "sublist w (before @ t @ rest)" by simp
    then have "sublist w before \<or> sublist w rest"
      using sublist_around less.prems(3) by blast
    then show ?thesis
    proof
      assume "sublist w before"
      then show ?thesis unfolding j sublist_append by blast
    next
      assume r: "sublist w rest"
      have "length rest < length h" using h less.prems(1) by (cases t) simp_all
      then have "sublist w (join r (split t rest))"
        using less.prems(1) r less.prems(3) by (rule less.hyps)
      then show ?thesis unfolding j sublist_append by blast
    qed
  qed
qed

lemma replaced:
  "t \<noteq> [] \<Longrightarrow> sublist t h \<Longrightarrow> sublist r (join r (split t h))"
proof -
  assume t: "t \<noteq> []" and s: "sublist t h"
  have "find_first t h \<noteq> None" using find_first_None s by blast
  then obtain before rest where "find_first t h = Some (before, rest)" by auto
  with t have "join r (split t h) = before @ r @ join r (split t rest)" by (rule split_Some)
  then show ?thesis by simp
qed


lemma decimal_digits: "set (decimal n) \<subseteq> set ''0123456789''"
proof (induction n rule: decimal.induct)
  case (1 n)
  have d: "digit k \<in> set ''0123456789''" if "k < 10" for k
    unfolding digit_def by (rule nth_mem) (use that in simp)
  show ?case
  proof (cases "n < 10")
    case True
    then show ?thesis using d [of n] by (subst decimal.simps) simp
  next
    case False
    have "digit (n mod 10) \<in> set ''0123456789''" by (rule d) simp
    with False "1.IH" show ?thesis by (subst decimal.simps) simp
  qed
qed

lemma decimal_nonempty: "decimal n \<noteq> []"
  using decimal_length [of n] by auto

lemma first_mark_unique:
  "a \<notin> set xs \<Longrightarrow> a \<notin> set ys \<Longrightarrow> xs @ a # u = ys @ a # v \<Longrightarrow> xs = ys"
proof (induction xs arbitrary: ys)
  case Nil
  then show ?case by (cases ys) auto
next
  case (Cons x xs)
  then show ?case by (cases ys) auto
qed

lemma token_extension: "token i @ q = token j \<Longrightarrow> i = j"
proof -
  assume "token i @ q = token j"
  then have e: "decimal i @ CHR ''E'' # (''ND'' @ q) = decimal j @ CHR ''E'' # ''ND''"
    by (simp add: token_def)
  have "CHR ''E'' \<notin> set (decimal i)" "CHR ''E'' \<notin> set (decimal j)"
    using decimal_digits [of i] decimal_digits [of j] by auto
  then have "decimal i = decimal j" using e by (rule first_mark_unique)
  then show ?thesis by (rule decimal_inj)
qed

lemma token_M:
  assumes "token n = x @ CHR ''M'' # y"
  shows "x = [] \<or> (x = ''MATHITE'' \<and> y = decimal n @ ''END'')"
proof -
  have m: "CHR ''M'' \<notin> set (decimal n @ ''END'')"
    using decimal_digits [of n] by auto
  have "decimal n @ ''END'' \<noteq> x' @ CHR ''M'' # y" for x'
  proof
    assume "decimal n @ ''END'' = x' @ CHR ''M'' # y"
    then have "CHR ''M'' \<in> set (decimal n @ ''END'')" by (metis in_set_conv_decomp)
    with m show False by simp
  qed
  with assms show ?thesis
    unfolding token_def by (auto simp: Cons_eq_append_conv)
qed

lemma token_not_after_M: "CHR ''M'' # decimal i @ r \<noteq> token j @ q"
proof
  assume "CHR ''M'' # decimal i @ r = token j @ q"
  then have "decimal i @ r = ''ATHITEM'' @ decimal j @ ''END'' @ q"
    by (simp add: token_def)
  with decimal_nonempty [of i] have "hd (decimal i) = CHR ''A''"
    by (cases "decimal i") auto
  moreover have "hd (decimal i) \<in> set (decimal i)"
    using decimal_nonempty by simp
  ultimately show False using decimal_digits [of i] by auto
qed

lemma token_sublist: "sublist (token i) (token j) \<Longrightarrow> i = j"
proof -
  assume "sublist (token i) (token j)"
  then obtain p q where pq: "token j = p @ token i @ q" by (auto simp: sublist_def)
  have ti: "token i = CHR ''M'' # ''ATHITEM'' @ decimal i @ ''END''" by (simp add: token_def)
  with pq have "token j = p @ CHR ''M'' # (''ATHITEM'' @ decimal i @ ''END'' @ q)" by simp
  then consider "p = []"
    | "p = ''MATHITE''" "''ATHITEM'' @ decimal i @ ''END'' @ q = decimal j @ ''END''"
    using token_M by blast
  then show ?thesis
  proof cases
    case 1
    with pq show ?thesis using token_extension by simp
  next
    case 2
    with decimal_nonempty [of j] have "hd (decimal j) = CHR ''A''"
      by (cases "decimal j") auto
    moreover have "hd (decimal j) \<in> set (decimal j)" using decimal_nonempty by simp
    ultimately show ?thesis using decimal_digits [of j] by auto
  qed
qed

lemma token_border: "y \<noteq> [] \<Longrightarrow> suffix y (token i) \<Longrightarrow> prefix y (token j) \<Longrightarrow> i = j"
proof -
  assume y: "y \<noteq> []" and s: "suffix y (token i)" and p: "prefix y (token j)"
  from s obtain x where x: "token i = x @ y" by (auto simp: suffix_def)
  from p obtain z where z: "token j = y @ z" by (auto simp: prefix_def)
  from y z have "hd y = CHR ''M''" by (cases y) (auto simp: token_def)
  with y obtain y' where y': "y = CHR ''M'' # y'" by (cases y) auto
  with x consider "x = []" | "x = ''MATHITE''" "y' = decimal i @ ''END''"
    using token_M by blast
  then show ?thesis
  proof cases
    case 1
    with x z have "token i @ z = token j" by simp
    then show ?thesis by (rule token_extension)
  next
    case 2
    with y' z have "CHR ''M'' # decimal i @ (''END'' @ z) = token j @ []" by simp
    with token_not_after_M show ?thesis by blast
  qed
qed

lemma not_overlapping_tokens: "i \<noteq> j \<Longrightarrow> \<not> overlapping (token i) (token j)"
  unfolding overlapping_def
  using token_sublist [of i j] token_sublist [of j i] token_border [of _ i j] token_border [of _ j i]
  by blast


lemma restore_all_present:
  assumes toks: "map fst all = map token [0..<n]"
    and clean: "list_all (\<lambda>(t, ty, m). cleanFragment (map fst all) (fragment katex ty m)) all"
  shows "all = done @ es \<Longrightarrow>
     (\<forall>(t, ty, m)\<in>set done. P t \<longrightarrow> sublist (fragment katex ty m) h) \<Longrightarrow>
     (\<forall>(t, ty, m)\<in>set es. P t \<longrightarrow> sublist t h) \<Longrightarrow>
     (\<forall>(t, ty, m)\<in>set all. P t \<longrightarrow> sublist (fragment katex ty m) (foldl (restoreEntry katex) h es))"
proof (induction es arbitrary: "done" h)
  case Nil
  then show ?case by simp
next
  case (Cons e es)
  obtain tk ty m where e: "e = (tk, ty, m)" by (cases e) auto
  let ?f = "fragment katex ty m"
  let ?h = "join ?f (split tk h)"
  have "inj_on token (set [0..<n])" by (rule inj_onI) (rule token_inj)
  then have "distinct (map token [0..<n])" by (simp add: distinct_map)
  with toks have dist: "distinct (map fst all)" by simp
  have key: "\<exists>i. t = token i" if "t \<in> fst ` set all" for t
  proof -
    from that have "t \<in> set (map fst all)" by simp
    then show ?thesis unfolding toks by auto
  qed
  from Cons.prems(1) e have tk_in: "tk \<in> fst ` set all" by force
  then obtain j where j: "tk = token j" using key by blast
  then have tk_ne: "tk \<noteq> []" and tk_al: "list_all alphanumeric tk"
    by (simp_all add: token_nonempty token_alphanumeric)
  have cf: "cleanFragment (map fst all) (fragment katex ty' m')" if "(t', ty', m') \<in> set all"
    for t' ty' m'
    using clean that by (auto simp: list_all_iff)
  have a: "\<forall>(t, ty, m)\<in>set (done @ [e]). P t \<longrightarrow> sublist (fragment katex ty m) ?h"
  proof (clarify)
    fix t' ty' m'
    assume mem: "(t', ty', m') \<in> set (done @ [e])" and p: "P t'"
    show "sublist (fragment katex ty' m') ?h"
    proof (cases "(t', ty', m') = e")
      case True
      with e have eq: "t' = tk" "ty' = ty" "m' = m" by simp_all
      from Cons.prems(3) e p eq have "sublist tk h" by auto
      with tk_ne have "sublist ?f ?h" by (rule replaced)
      with eq show ?thesis by simp
    next
      case False
      with mem have d: "(t', ty', m') \<in> set done" by auto
      with Cons.prems(2) p have s: "sublist (fragment katex ty' m') h" by auto
      from d Cons.prems(1) have "(t', ty', m') \<in> set all" by simp
      from cf [OF this] tk_in
      have c: "fragment katex ty' m' \<noteq> []" "\<not> alphanumeric (hd (fragment katex ty' m'))"
        "\<not> alphanumeric (last (fragment katex ty' m'))" "\<not> sublist tk (fragment katex ty' m')"
        by (auto simp: cleanFragment_def list_all_iff)
      have "\<not> overlapping (fragment katex ty' m') tk"
        using tk_al c by (rule not_overlapping_fragment)
      with tk_ne s show ?thesis by (rule survives)
    qed
  qed
  have b: "\<forall>(t, ty, m)\<in>set es. P t \<longrightarrow> sublist t ?h"
  proof (clarify)
    fix t' ty' m'
    assume mem: "(t', ty', m') \<in> set es" and p: "P t'"
    with Cons.prems(3) have s: "sublist t' h" by auto
    from mem Cons.prems(1) have "t' \<in> fst ` set all" by force
    then obtain i where i: "t' = token i" using key by blast
    from dist Cons.prems(1) e have "tk \<notin> fst ` set es" by auto
    with mem have "t' \<noteq> tk" by force
    with i j have "i \<noteq> j" by auto
    then have "\<not> overlapping t' tk" unfolding i j by (rule not_overlapping_tokens)
    with tk_ne s show "sublist t' ?h" by (rule survives)
  qed
  from Cons.prems(1) have "all = (done @ [e]) @ es" by simp
  from Cons.IH [OF this a b] show ?case
    unfolding e foldl_Cons restoreEntry_fragment .
qed

section \<open>The claims\<close>

text \<open>
  C1, as the code has it. When the Markdown transform returns, and every fragment that
  restoration substitutes (rendered math or the error fragment) is non-empty, begins and
  ends with a non-alphanumeric character (as \<open><span ...>...</span>\<close> does) and holds none of
  the tokens generated for this text, then none of the generated tokens occurs in the
  returned HTML. (Text of the placeholder form that is not a generated token is outside
  this statement: restoration only looks for the keys of the table.)
\<close>

theorem generated_tokens_restored:
  assumes e: "extractMath text = (protectedText, st)"
    and h: "htmlContent marked katex text = Inr html"
    and c: "list_all (\<lambda>(tok, ty, math). cleanFragment (map fst (latexMap st)) (fragment katex ty math))
              (latexMap st)"
  shows "list_all (\<lambda>tok. \<not> sublist tok html) (map fst (latexMap st))"
proof (cases "text = []")
  case True
  with e have "latexMap st = []" by (auto simp: extractMath_Nil)
  then show ?thesis by simp
next
  case False
  let ?toks = "map fst (latexMap st)"
  from h obtain rawHtml where html: "html = foldl (restoreEntry katex) rawHtml (latexMap st)"
    unfolding htmlContent_restore [OF False e] by (auto split: sum.splits)
  have n: "?toks = map token [0..<counter st]"
    using extractMath_numbered [OF e] by (simp add: numbered_def)
  have "list_all (\<lambda>t. list_all alphanumeric t \<and> t \<noteq> []) (map token [0..<counter st])"
    using token_alphanumeric token_nonempty by (simp add: list_all_iff)
  then have t: "list_all (\<lambda>t. list_all alphanumeric t \<and> t \<noteq> []) ?toks"
    by (simp only: n)
  have "list_all (\<lambda>w. \<not> sublist w (foldl (restoreEntry katex) rawHtml (latexMap st))) ?toks"
    by (rule restore_all_absent [OF t c]) (simp_all add: list_all_iff)
  then show ?thesis by (simp only: html)
qed

theorem generated_tokens_restored_witness:
  "extractMath ''$a$ and $$b$$'' =
     (''MATHITEM1END and MATHITEM0END'',
      \<lparr>counter = 2,
       latexMap = [(''MATHITEM0END'', Block, ''b''), (''MATHITEM1END'', Inline, ''a'')]\<rparr>)
   \<and> htmlContent (\<lambda>s. Inr (''<p>'' @ s @ ''</p>'')) (\<lambda>m b. Inr (''<k>'' @ m @ ''</k>''))
       ''$a$ and $$b$$'' = Inr ''<p><k>a</k> and <k>b</k></p>''
   \<and> \<not> sublist ''MATHITEM0END'' ''<p><k>a</k> and <k>b</k></p>''
   \<and> \<not> sublist ''MATHITEM1END'' ''<p><k>a</k> and <k>b</k></p>''"
proof -
  let ?st = "\<lparr>counter = 2,
       latexMap = [(''MATHITEM0END'', Block, ''b''), (''MATHITEM1END'', Inline, ''a'')]\<rparr>"
  let ?katex = "\<lambda>m b. Inr (''<k>'' @ m @ ''</k>'') :: string + string"
  have e: "extractMath ''$a$ and $$b$$'' = (''MATHITEM1END and MATHITEM0END'', ?st)"
    by code_simp
  have h: "htmlContent (\<lambda>s. Inr (''<p>'' @ s @ ''</p>'')) ?katex
       ''$a$ and $$b$$'' = Inr ''<p><k>a</k> and <k>b</k></p>''"
    by code_simp
  have c: "list_all (\<lambda>(tok, ty, math). cleanFragment (map fst (latexMap ?st)) (fragment ?katex ty math))
              (latexMap ?st)"
    by code_simp
  from generated_tokens_restored [OF e h c] e h show ?thesis
    by simp
qed

text \<open>
  C1 as stated fails. The text \<open>MATHITEM0END\<close> has no math span, the table stays empty, and
  the placeholder-shaped text reaches the output. And on \<open>$x$ $MATHITEM0END$\<close> the second
  span's rendering brings the first span's token back, after that token's turn has passed.
\<close>

theorem placeholder_text_leaks:
  "htmlContent (\<lambda>s. Inr (''<p>'' @ s @ ''</p>'')) (\<lambda>m b. Inr (''<k>'' @ m @ ''</k>''))
     ''MATHITEM0END'' = Inr ''<p>MATHITEM0END</p>''
   \<and> htmlContent (\<lambda>s. Inr (''<p>'' @ s @ ''</p>'')) (\<lambda>m b. Inr (''<k>'' @ m @ ''</k>''))
     ''$x$ $MATHITEM0END$'' = Inr ''<p><k>x</k> <k>MATHITEM0END</k></p>''"
  by code_simp

text \<open>
  C2. Extraction is the four passes in the order \<open>$$..$$\<close> (block), \<open>\[..\]\<close> (block),
  \<open>\(..\)\<close> (inline), \<open>$..$\<close> (inline), each run on the working text and the table that
  the pass before it left; so in every table the block entries stand before the inline
  entries. On \<open>$$x^2$$ and $y$\<close> the table holds one block span \<open>x^2\<close> and one inline
  span \<open>y\<close>. On \<open>$a$$b$\<close> the double-dollar rule replaces nothing and the table holds
  the two inline spans \<open>a\<close> and \<open>b\<close>. On \<open>$a$ \(b\) \[c\] $$d$$\<close> the spans are
  numbered by rule, \<open>d\<close> first and \<open>a\<close> last. What an earlier rule has taken a later one
  does not see: \<open>$$ \[u\] $v$ $$\<close> is one block span and \<open>\( $w$ \)\<close> one inline span.
\<close>

theorem extraction_precedence:
  "extractMath text =
     (case replaceMath DollarDollar Block text \<lparr>counter = 0, latexMap = []\<rparr> of
        (t1, st1) \<Rightarrow>
          (case replaceMath BackslashBracket Block t1 st1 of
             (t2, st2) \<Rightarrow>
               (case replaceMath BackslashParen Inline t2 st2 of
                  (t3, st3) \<Rightarrow> replaceMath Dollar Inline t3 st3)))
   \<and> latexMap (snd (extractMath text)) =
       filter (\<lambda>e. fst (snd e) = Block) (latexMap (snd (extractMath text))) @
       filter (\<lambda>e. fst (snd e) = Inline) (latexMap (snd (extractMath text)))
   \<and> extractMath ''$$x^2$$ and $y$'' =
     (''MATHITEM0END and MATHITEM1END'',
      \<lparr>counter = 2,
       latexMap = [(''MATHITEM0END'', Block, ''x^2''), (''MATHITEM1END'', Inline, ''y'')]\<rparr>)
   \<and> replaceMath DollarDollar Block ''$a$$b$'' \<lparr>counter = 0, latexMap = []\<rparr> =
     (''$a$$b$'', \<lparr>counter = 0, latexMap = []\<rparr>)
   \<and> extractMath ''$a$$b$'' =
     (''MATHITEM0ENDMATHITEM1END'',
      \<lparr>counter = 2,
       latexMap = [(''MATHITEM0END'', Inline, ''a''), (''MATHITEM1END'', Inline, ''b'')]\<rparr>)
   \<and> extractMath (''$a$ '' @ [CHR 0x5C] @ ''(b'' @ [CHR 0x5C] @ '') '' @ [CHR 0x5C] @ ''[c''
                   @ [CHR 0x5C] @ ''] $$d$$'') =
     (''MATHITEM3END MATHITEM2END MATHITEM1END MATHITEM0END'',
      \<lparr>counter = 4,
       latexMap = [(''MATHITEM0END'', Block, ''d''), (''MATHITEM1END'', Block, ''c''),
                   (''MATHITEM2END'', Inline, ''b''), (''MATHITEM3END'', Inline, ''a'')]\<rparr>)
   \<and> extractMath (''$$ '' @ [CHR 0x5C] @ ''[u'' @ [CHR 0x5C] @ ''] $v$ $$'') =
     (''MATHITEM0END'',
      \<lparr>counter = 1,
       latexMap = [(''MATHITEM0END'', Block, '' '' @ [CHR 0x5C] @ ''[u'' @ [CHR 0x5C] @ ''] $v$ '')]\<rparr>)
   \<and> extractMath ([CHR 0x5C] @ ''( $w$ '' @ [CHR 0x5C] @ '')'') =
     (''MATHITEM0END'', \<lparr>counter = 1, latexMap = [(''MATHITEM0END'', Inline, '' $w$ '')]\<rparr>)"
proof -
  have "extractMath text =
     (case replaceMath DollarDollar Block text \<lparr>counter = 0, latexMap = []\<rparr> of
        (t1, st1) \<Rightarrow>
          (case replaceMath BackslashBracket Block t1 st1 of
             (t2, st2) \<Rightarrow>
               (case replaceMath BackslashParen Inline t2 st2 of
                  (t3, st3) \<Rightarrow> replaceMath Dollar Inline t3 st3)))"
    by (simp add: extractMath_def split: prod.splits)
  moreover note extractMath_blocks_first [of "text"]
  moreover have "extractMath ''$$x^2$$ and $y$'' =
     (''MATHITEM0END and MATHITEM1END'',
      \<lparr>counter = 2,
       latexMap = [(''MATHITEM0END'', Block, ''x^2''), (''MATHITEM1END'', Inline, ''y'')]\<rparr>)"
    by code_simp
  moreover have "replaceMath DollarDollar Block ''$a$$b$'' \<lparr>counter = 0, latexMap = []\<rparr> =
     (''$a$$b$'', \<lparr>counter = 0, latexMap = []\<rparr>)"
    by code_simp
  moreover have "extractMath ''$a$$b$'' =
     (''MATHITEM0ENDMATHITEM1END'',
      \<lparr>counter = 2,
       latexMap = [(''MATHITEM0END'', Inline, ''a''), (''MATHITEM1END'', Inline, ''b'')]\<rparr>)"
    by code_simp
  moreover have "extractMath (''$a$ '' @ [CHR 0x5C] @ ''(b'' @ [CHR 0x5C] @ '') '' @ [CHR 0x5C] @ ''[c''
                   @ [CHR 0x5C] @ ''] $$d$$'') =
     (''MATHITEM3END MATHITEM2END MATHITEM1END MATHITEM0END'',
      \<lparr>counter = 4,
       latexMap = [(''MATHITEM0END'', Block, ''d''), (''MATHITEM1END'', Block, ''c''),
                   (''MATHITEM2END'', Inline, ''b''), (''MATHITEM3END'', Inline, ''a'')]\<rparr>)"
    by code_simp
  moreover have "extractMath (''$$ '' @ [CHR 0x5C] @ ''[u'' @ [CHR 0x5C] @ ''] $v$ $$'') =
     (''MATHITEM0END'',
      \<lparr>counter = 1,
       latexMap = [(''MATHITEM0END'', Block, '' '' @ [CHR 0x5C] @ ''[u'' @ [CHR 0x5C] @ ''] $v$ '')]\<rparr>)"
    by code_simp
  moreover have "extractMath ([CHR 0x5C] @ ''( $w$ '' @ [CHR 0x5C] @ '')'') =
     (''MATHITEM0END'', \<lparr>counter = 1, latexMap = [(''MATHITEM0END'', Inline, '' $w$ '')]\<rparr>)"
    by code_simp
  ultimately show ?thesis by blast
qed




text \<open>
  C4, as the code has it. Let the math transform throw \<open>e\<close> on the source of a span of the
  text's table, and let the Markdown transform return. Then the render returns HTML: no
  exception escapes. The error fragment holds the source and \<open>e\<close>. If every fragment of
  this render (rendered math or error fragment) is non-empty, begins and ends with a
  non-alphanumeric character and holds none of the generated tokens, then the HTML has no
  occurrence of the span's token; it holds the error fragment whenever the Markdown output
  held the token; and every span whose token the Markdown output held has its own fragment
  in the HTML, which for a span that rendered is what the math transform returned for it.
\<close>

theorem math_failure_contained:
  assumes x: "extractMath text = (protectedText, st)"
    and m: "marked protectedText = Inr rawHtml"
    and en: "(tok, ty, math) \<in> set (latexMap st)"
    and f: "katex math (ty = Block) = Inl e"
  shows "\<exists>html. htmlContent marked katex text = Inr html
     \<and> sublist math (errorFragment e math) \<and> sublist e (errorFragment e math)
     \<and> (list_all (\<lambda>(t, ty', m). cleanFragment (map fst (latexMap st)) (fragment katex ty' m))
            (latexMap st)
        \<longrightarrow> \<not> sublist tok html
          \<and> (sublist tok rawHtml \<longrightarrow> sublist (errorFragment e math) html)
          \<and> (\<forall>(t, ty', m)\<in>set (latexMap st).
               sublist t rawHtml \<longrightarrow> sublist (fragment katex ty' m) html))"
proof -
  let ?html = "foldl (restoreEntry katex) rawHtml (latexMap st)"
  let ?clean = "list_all (\<lambda>(t, ty', m). cleanFragment (map fst (latexMap st)) (fragment katex ty' m))
      (latexMap st)"
  have ne: "text \<noteq> []"
  proof
    assume "text = []"
    with x have "latexMap st = []" by (auto simp: extractMath_Nil)
    with en show False by simp
  qed
  have 1: "htmlContent marked katex text = Inr ?html"
    unfolding htmlContent_restore [OF ne x] by (simp add: m)
  have n: "map fst (latexMap st) = map token [0..<counter st]"
    using extractMath_numbered [OF x] by (simp add: numbered_def)
  have fr: "fragment katex ty math = errorFragment e math"
    using f by (simp add: fragment_def)
  have "list_all (\<lambda>t. list_all alphanumeric t \<and> t \<noteq> []) (map token [0..<counter st])"
    using token_alphanumeric token_nonempty by (simp add: list_all_iff)
  then have t: "list_all (\<lambda>t. list_all alphanumeric t \<and> t \<noteq> []) (map fst (latexMap st))"
    by (simp only: n)
  have \<open>errorFragment e math =
      (''<span class="text-red-400 error" title="'' @ e @ ''">$'') @ math @ ''$</span>''\<close>
    by (simp add: errorFragment_def)
  then have 2: "sublist math (errorFragment e math)"
    by (simp only: sublist_appendI)
  have \<open>errorFragment e math =
      ''<span class="text-red-400 error" title="'' @ e @ (''">$'' @ math @ ''$</span>'')\<close>
    by (simp add: errorFragment_def)
  then have 3: "sublist e (errorFragment e math)"
    by (simp only: sublist_appendI)
  have 4: "\<not> sublist tok ?html
      \<and> (sublist tok rawHtml \<longrightarrow> sublist (errorFragment e math) ?html)
      \<and> (\<forall>(t, ty', m)\<in>set (latexMap st).
           sublist t rawHtml \<longrightarrow> sublist (fragment katex ty' m) ?html)"
    if c: ?clean
  proof -
    have all: "\<forall>(t, ty', m)\<in>set (latexMap st).
        sublist t rawHtml \<longrightarrow> sublist (fragment katex ty' m) ?html"
      by (rule restore_all_present [OF n c, of "[]"]) simp_all
    with en fr have "sublist tok rawHtml \<longrightarrow> sublist (errorFragment e math) ?html"
      by auto
    moreover have "list_all (\<lambda>w. \<not> sublist w ?html) (map fst (latexMap st))"
      by (rule restore_all_absent [OF t c]) (simp_all add: list_all_iff)
    with en have "\<not> sublist tok ?html"
      by (force simp: list_all_iff)
    ultimately show ?thesis using all by blast
  qed
  from 1 2 3 4 show ?thesis by blast
qed

theorem math_failure_contained_witness:
  \<open>extractMath (''$x$ and $'' @ CHR 0x5C # ''bad{$ again'') =
     (''MATHITEM0END and MATHITEM1END again'',
      \<lparr>counter = 2,
       latexMap = [(''MATHITEM0END'', Inline, ''x''),
                   (''MATHITEM1END'', Inline, CHR 0x5C # ''bad{'')]\<rparr>)
   \<and> (\<lambda>m b. if m = CHR 0x5C # ''bad{'' then Inl ''ParseError'' else Inr (''<k>'' @ m @ ''</k>''))
       (CHR 0x5C # ''bad{'') (Inline = Block) = Inl ''ParseError''
   \<and> sublist ''MATHITEM1END'' ''<p>MATHITEM0END and MATHITEM1END again</p>''
   \<and> htmlContent (\<lambda>s. Inr (''<p>'' @ s @ ''</p>''))
       (\<lambda>m b. if m = CHR 0x5C # ''bad{'' then Inl ''ParseError'' else Inr (''<k>'' @ m @ ''</k>''))
       (''$x$ and $'' @ CHR 0x5C # ''bad{$ again'') =
     Inr (''<p><k>x</k> and <span class="text-red-400 error" title="ParseError">$''
          @ CHR 0x5C # ''bad{$</span> again</p>'')
   \<and> sublist (errorFragment ''ParseError'' (CHR 0x5C # ''bad{''))
       (''<p><k>x</k> and <span class="text-red-400 error" title="ParseError">$''
          @ CHR 0x5C # ''bad{$</span> again</p>'')
   \<and> \<not> sublist ''MATHITEM1END''
       (''<p><k>x</k> and <span class="text-red-400 error" title="ParseError">$''
          @ CHR 0x5C # ''bad{$</span> again</p>'')
   \<and> sublist ''<k>x</k>''
       (''<p><k>x</k> and <span class="text-red-400 error" title="ParseError">$''
          @ CHR 0x5C # ''bad{$</span> again</p>'')\<close>
proof -
  let ?text = "''$x$ and $'' @ CHR 0x5C # ''bad{$ again''"
  let ?bad = "CHR 0x5C # ''bad{''"
  let ?st = "\<lparr>counter = 2,
       latexMap = [(''MATHITEM0END'', Inline, ''x''), (''MATHITEM1END'', Inline, ?bad)]\<rparr>"
  let ?marked = "\<lambda>s. Inr (''<p>'' @ s @ ''</p>'') :: string + string"
  let ?katex = "\<lambda>m b. if m = ?bad then Inl ''ParseError''
                      else (Inr (''<k>'' @ m @ ''</k>'') :: string + string)"
  let ?raw = "''<p>MATHITEM0END and MATHITEM1END again</p>''"
  let ?out = \<open>''<p><k>x</k> and <span class="text-red-400 error" title="ParseError">$''
          @ CHR 0x5C # ''bad{$</span> again</p>''\<close>
  have x: "extractMath ?text = (''MATHITEM0END and MATHITEM1END again'', ?st)"
    by code_simp
  have m: "?marked ''MATHITEM0END and MATHITEM1END again'' = Inr ?raw"
    by simp
  have en: "(''MATHITEM1END'', Inline, ?bad) \<in> set (latexMap ?st)"
    by simp
  have f: "?katex ?bad (Inline = Block) = Inl ''ParseError''"
    by simp
  have c: "list_all (\<lambda>(t, ty', m). cleanFragment (map fst (latexMap ?st)) (fragment ?katex ty' m))
              (latexMap ?st)"
    by code_simp
  have h: "htmlContent ?marked ?katex ?text = Inr ?out"
    by code_simp
  have s1: "sublist ''MATHITEM1END'' ?raw" and s0: "sublist ''MATHITEM0END'' ?raw"
    by code_simp+
  have fx: "fragment ?katex Inline ''x'' = ''<k>x</k>''"
    by (simp add: fragment_def)
  from math_failure_contained [of ?text "''MATHITEM0END and MATHITEM1END again''" ?st ?marked ?raw
      "''MATHITEM1END''" Inline ?bad ?katex "''ParseError''", OF x m en f] c
  obtain html where html: "htmlContent ?marked ?katex ?text = Inr html"
    and e: "sublist ''MATHITEM1END'' ?raw \<longrightarrow> sublist (errorFragment ''ParseError'' ?bad) html"
    and t: "\<not> sublist ''MATHITEM1END'' html"
    and o: "\<forall>(t, ty', m)\<in>set (latexMap ?st). sublist t ?raw \<longrightarrow> sublist (fragment ?katex ty' m) html"
    by blast
  from html h have eq: "html = ?out" by simp
  from e s1 have "sublist (errorFragment ''ParseError'' ?bad) html" by blast
  moreover from o s0 have "sublist (fragment ?katex Inline ''x'') html" by simp
  then have "sublist ''<k>x</k>'' html" by (simp only: fx)
  ultimately show ?thesis using x f s1 h t unfolding eq by blast
qed

text \<open>
  C4 as stated fails. On \<open>$MATHITEM1END$ $x$\<close>, with a math transform that throws on the
  first span's source, the error fragment put in for the first span holds the second
  span's token; the second span's turn then rewrites it, and the returned HTML holds the
  first span's source nowhere.
\<close>

theorem error_fragment_rewritten:
  \<open>extractMath ''$MATHITEM1END$ $x$'' =
     (''MATHITEM0END MATHITEM1END'',
      \<lparr>counter = 2,
       latexMap = [(''MATHITEM0END'', Inline, ''MATHITEM1END''), (''MATHITEM1END'', Inline, ''x'')]\<rparr>)
   \<and> htmlContent (\<lambda>s. Inr (''<p>'' @ s @ ''</p>''))
       (\<lambda>m b. if m = ''MATHITEM1END'' then Inl ''ParseError'' else Inr (''<k>'' @ m @ ''</k>''))
       ''$MATHITEM1END$ $x$'' =
     Inr ''<p><span class="text-red-400 error" title="ParseError">$<k>x</k>$</span> <k>x</k></p>''
   \<and> \<not> sublist ''MATHITEM1END''
       ''<p><span class="text-red-400 error" title="ParseError">$<k>x</k>$</span> <k>x</k></p>''\<close>
  by code_simp

text \<open>
  C5, as the code has it. A span written with any of the four delimiter pairs is stored with
  its source alone (the capture group, without the delimiters). When its render fails, the
  fragment put in place of its token has the text content \<open>$source$\<close>: the source between
  two single dollar signs, whichever delimiters the input had.
\<close>

theorem error_fragment_wraps_in_dollars:
  assumes \<open>katex math (ty = Block) = Inl e\<close> and \<open>hd (closeDelim rx) \<notin> set math\<close>
  shows \<open>replaceMath rx ty (openDelim rx @ math @ closeDelim rx) st = store ty math st
     \<and> restoreEntry katex rawHtml (tok, ty, math) =
       join (''<span class="text-red-400 error" title="'' @ e @ ''">'' @ ''$'' @ math @ ''$''
             @ ''</span>'')
         (split tok rawHtml)\<close>
  using assms by (simp add: replaceMath_single errorFragment_def)

theorem error_fragment_wraps_in_dollars_witness:
  \<open>(\<lambda>m b. Inl ''ParseError'' :: string + string) ''x'' (Inline = Block) = Inl ''ParseError''
   \<and> hd (closeDelim BackslashParen) \<notin> set ''x''
   \<and> replaceMath BackslashParen Inline ([CHR 0x5C, CHR ''(''] @ ''x'' @ [CHR 0x5C, CHR '')''])
       \<lparr>counter = 0, latexMap = []\<rparr> =
     (''MATHITEM0END'', \<lparr>counter = 1, latexMap = [(''MATHITEM0END'', Inline, ''x'')]\<rparr>)
   \<and> restoreEntry (\<lambda>m b. Inl ''ParseError'') ''<p>MATHITEM0END</p>'' (''MATHITEM0END'', Inline, ''x'') =
     ''<p><span class="text-red-400 error" title="ParseError">$x$</span></p>''\<close>
proof -
  have f: "(\<lambda>m b. Inl ''ParseError'' :: string + string) ''x'' (Inline = Block) = Inl ''ParseError''"
    by simp
  have c: "hd (closeDelim BackslashParen) \<notin> set ''x''"
    by simp
  have s: "store Inline ''x'' \<lparr>counter = 0, latexMap = []\<rparr> =
      (''MATHITEM0END'', \<lparr>counter = 1, latexMap = [(''MATHITEM0END'', Inline, ''x'')]\<rparr>)"
    by code_simp
  have j: \<open>join (''<span class="text-red-400 error" title="'' @ ''ParseError'' @ ''">'' @ ''$'' @ ''x''
             @ ''$'' @ ''</span>'')
         (split ''MATHITEM0END'' ''<p>MATHITEM0END</p>'') =
     ''<p><span class="text-red-400 error" title="ParseError">$x$</span></p>''\<close>
    by code_simp
  from error_fragment_wraps_in_dollars [of "\<lambda>m b. Inl ''ParseError''" "''x''" Inline
      "''ParseError''" BackslashParen "\<lparr>counter = 0, latexMap = []\<rparr>"
      "''<p>MATHITEM0END</p>''" "''MATHITEM0END''", OF f c]
  show ?thesis unfolding s j using c by simp
qed

text \<open>
  C5 as stated fails: for the input \<open>\(x\)\<close> and a math transform that throws, the text
  content of the error fragment is \<open>$x$\<close>, not \<open>x\<close>.
\<close>

theorem error_fragment_has_dollars:
  \<open>htmlContent (\<lambda>s. Inr s) (\<lambda>m b. Inl ''ParseError'')
     ([CHR 0x5C, CHR ''(''] @ ''x'' @ [CHR 0x5C, CHR '')'']) =
   Inr ''<span class="text-red-400 error" title="ParseError">$x$</span>''\<close>
  by code_simp






text \<open>
  C8. In any sequence of renders of a mounted component, whatever the earlier props were,
  the HTML of each render is the value of \<open>htmlContent\<close> on that render's text alone;
  so equal texts give equal HTML. And in each of these calls the extraction numbers its
  table from 0: the keys are \<open>MATHITEM0END\<close> up to the call's own count.
\<close>

theorem render_stateless:
  assumes "renders marked katex ps None = Inr (els, cell)"
  shows "map (\<lambda>p. htmlContent marked katex (textProp p)) ps = map (\<lambda>el. Inr (innerHTML el)) els
     \<and> list_all (\<lambda>p. numbered (snd (extractMath (textProp p)))) ps"
proof -
  have "memoFor (htmlContent marked katex) None" by (simp add: memoFor_def)
  from renders_fresh [OF this assms]
  have "map (\<lambda>p. htmlContent marked katex (textProp p)) ps = map (\<lambda>el. Inr (innerHTML el)) els" .
  moreover have "numbered (snd (extractMath t))" for t
    by (rule extractMath_numbered [of t "fst (extractMath t)"]) simp
  then have "list_all (\<lambda>p. numbered (snd (extractMath (textProp p)))) ps"
    by (simp add: list_all_iff)
  ultimately show ?thesis by simp
qed

theorem render_stateless_witness:
  "renders (\<lambda>s. Inr (''<p>'' @ s @ ''</p>'')) (\<lambda>m b. Inr (''<k>'' @ m @ ''</k>''))
     [\<lparr>textProp = ''$x$'', classNameProp = None, blockProp = None\<rparr>,
      \<lparr>textProp = ''$y$ $z$'', classNameProp = None, blockProp = None\<rparr>,
      \<lparr>textProp = ''$x$'', classNameProp = None, blockProp = Some True\<rparr>] None =
     Inr ([\<lparr>className = ''markdown-content '', innerHTML = ''<p><k>x</k></p>''\<rparr>,
           \<lparr>className = ''markdown-content '', innerHTML = ''<p><k>y</k> <k>z</k></p>''\<rparr>,
           \<lparr>className = ''markdown-content '', innerHTML = ''<p><k>x</k></p>''\<rparr>],
          Some (''$x$'', ''<p><k>x</k></p>''))
   \<and> map (\<lambda>p. htmlContent (\<lambda>s. Inr (''<p>'' @ s @ ''</p>'')) (\<lambda>m b. Inr (''<k>'' @ m @ ''</k>''))
               (textProp p))
       [\<lparr>textProp = ''$x$'', classNameProp = None, blockProp = None\<rparr>,
        \<lparr>textProp = ''$y$ $z$'', classNameProp = None, blockProp = None\<rparr>,
        \<lparr>textProp = ''$x$'', classNameProp = None, blockProp = Some True\<rparr>] =
     [Inr ''<p><k>x</k></p>'', Inr ''<p><k>y</k> <k>z</k></p>'', Inr ''<p><k>x</k></p>'']"
proof -
  have h: "renders (\<lambda>s. Inr (''<p>'' @ s @ ''</p>'')) (\<lambda>m b. Inr (''<k>'' @ m @ ''</k>''))
     [\<lparr>textProp = ''$x$'', classNameProp = None, blockProp = None\<rparr>,
      \<lparr>textProp = ''$y$ $z$'', classNameProp = None, blockProp = None\<rparr>,
      \<lparr>textProp = ''$x$'', classNameProp = None, blockProp = Some True\<rparr>] None =
     Inr ([\<lparr>className = ''markdown-content '', innerHTML = ''<p><k>x</k></p>''\<rparr>,
           \<lparr>className = ''markdown-content '', innerHTML = ''<p><k>y</k> <k>z</k></p>''\<rparr>,
           \<lparr>className = ''markdown-content '', innerHTML = ''<p><k>x</k></p>''\<rparr>],
          Some (''$x$'', ''<p><k>x</k></p>''))"
    by code_simp
  from render_stateless [OF h] h show ?thesis by simp
qed

text \<open>
  C9. The \<open>block\<close> prop has no effect on what the component returns: for every text, class
  name and memo cell, the element (its HTML and its class) and the new memo cell are the
  same for any two values of the flag, absent, true or false.
\<close>

theorem block_flag_unused:
  "LatexRenderer marked katex \<lparr>textProp = t, classNameProp = c, blockProp = b\<rparr> cell =
   LatexRenderer marked katex \<lparr>textProp = t, classNameProp = c, blockProp = b'\<rparr> cell"
  by (simp add: LatexRenderer_def)

text \<open>
  C10. Whatever the fetch and the parsing do, \<open>fetchQuestions\<close> resolves with a non-empty
  list. But an element's \<open>question\<close> need not be a string: when the file is
  \<open>{"questions":[{"question":42}]}\<close> the list has one element whose \<open>question\<close> is the
  number 42. The callback converts \<open>answer\<close> and \<open>subject\<close> with \<open>String(...)\<close> and
  leaves \<open>question\<close> as it came.
\<close>

theorem fetchQuestions_question_not_string:
  "fetchQuestions rt outcome \<noteq> []
   \<and> fetchQuestions rt
     (Response True 200
        (Inr (Object [(''questions'', Array [Object [(''question'', Number (Finite 42))]])]))) =
   [\<lparr>id = Finite 1, question = Number (Finite 42), options = [], answer = [],
     solution = String [], subject = ''General''\<rparr>]"
proof -
  have "fetchQuestions rt outcome \<noteq> []"
  proof (cases outcome)
    case (Rejected e)
    then show ?thesis by (simp add: fetchQuestions_def FALLBACK_DATA_def)
  next
    case (Response ok status body)
    show ?thesis
    proof (cases body)
      case (Inl e)
      with Response show ?thesis by (simp add: fetchQuestions_def FALLBACK_DATA_def)
    next
      case (Inr rawData)
      show ?thesis
      proof (cases "normalizeData rt rawData")
        case (Inl e)
        with Response \<open>body = Inr rawData\<close> show ?thesis
          by (simp add: fetchQuestions_def FALLBACK_DATA_def)
      next
        case (Inr normalizedData)
        with Response \<open>body = Inr rawData\<close> show ?thesis
          by (simp add: fetchQuestions_def FALLBACK_DATA_def)
      qed
    qed
  qed
  moreover have "fetchQuestions rt
     (Response True 200
        (Inr (Object [(''questions'', Array [Object [(''question'', Number (Finite 42))]])]))) =
   [\<lparr>id = Finite 1, question = Number (Finite 42), options = [], answer = [],
     solution = String [], subject = ''General''\<rparr>]"
    by (simp add: fetchQuestions_def normalizeData_def normalizeItem_def mapSubject_def
        or_else_def subjectTable_def List.map_filter_simps)
  ultimately show ?thesis by simp
qed

end
